theory Spec2Isabelle
  imports Complex_Main
begin

section \<open>Python values, rows and errors\<close>

text \<open>
  The script \<^verbatim>\<open>csv_to_json_parser.py\<close> iterates over the rows of a
  \<^verbatim>\<open>csv.DictReader\<close> and builds one dictionary per row. The exceptions that the
  expressions of the loop body can raise are values of \<open>py_error\<close>; a computation that
  may raise returns \<open>py_error + 'a\<close>, with \<open>Inl\<close> for the exception.

  A string is a list of characters; a \<open>char\<close> stands for the code point of the same
  number, so the model covers cell texts over the code points 0 to 255.
\<close>

datatype py_error = ValueError | TypeError | OverflowError

text \<open>
  The values that occur in the loop body: \<^verbatim>\<open>None\<close>, a string, or an integer (the
  default \<^verbatim>\<open>0\<close> of the form-submissions lookup).
\<close>

datatype pyval = PyNone | PyStr string | PyInt int

text \<open>
  A row of the reader maps a column name to its cell. \<open>row k = None\<close>: the header has
  no column \<open>k\<close>. \<open>row k = Some None\<close>: the line was shorter than the header and the
  reader filled the cell with \<^verbatim>\<open>None\<close>. \<open>row k = Some (Some s)\<close>: the cell text \<open>s\<close>.
\<close>

type_synonym row = "string \<rightharpoonup> string option"

text \<open>\<^verbatim>\<open>row.get(k, d)\<close>\<close>

definition dict_get :: "row \<Rightarrow> string \<Rightarrow> pyval \<Rightarrow> pyval" where
  "dict_get r k d =
     (case r k of None \<Rightarrow> d | Some None \<Rightarrow> PyNone | Some (Some s) \<Rightarrow> PyStr s)"

text \<open>\<^verbatim>\<open>bool(v)\<close>\<close>

fun py_bool :: "pyval \<Rightarrow> bool" where
  "py_bool PyNone = False"
| "py_bool (PyStr s) = (s \<noteq> [])"
| "py_bool (PyInt n) = (n \<noteq> 0)"

text \<open>\<^verbatim>\<open>a or b\<close>\<close>

definition py_or :: "pyval \<Rightarrow> pyval \<Rightarrow> pyval" where
  "py_or a b = (if py_bool a then a else b)"

section \<open>\<^verbatim>\<open>float(...)\<close> and \<^verbatim>\<open>int(...)\<close>\<close>

text \<open>
  A float is an IEEE 754 binary64 value: a finite value \<open>(-1)^s * m * 2^p\<close> with
  \<open>m < 2^53\<close> and \<open>-1074 \<le> p \<le> 971\<close>, an infinity, or a NaN.
\<close>

datatype pyfloat = Finite bool nat int | Infinity bool | NaN

definition is_digit :: "char \<Rightarrow> bool" where
  "is_digit c = (48 \<le> (of_char c :: nat) \<and> (of_char c :: nat) \<le> 57)"

definition digit_val :: "char \<Rightarrow> nat" where
  "digit_val c = of_char c - 48"

definition nat_of_digits :: "string \<Rightarrow> nat" where
  "nat_of_digits ds = foldl (\<lambda>a c. 10 * a + digit_val c) 0 ds"

text \<open>Number of binary digits of a natural number (\<^verbatim>\<open>int.bit_length\<close>).\<close>

function bit_length :: "nat \<Rightarrow> nat" where
  "bit_length n = (if n = 0 then 0 else Suc (bit_length (n div 2)))"
  by pat_completeness auto
termination
  by (relation "measure (\<lambda>n. n)") auto

text \<open>Rounding the quotient \<open>n / d\<close> to the nearest integer, ties to the even one.\<close>

definition round_half_even :: "nat \<Rightarrow> nat \<Rightarrow> nat" where
  "round_half_even n d =
     (let q = n div d; r = n mod d
      in if 2 * r < d then q
         else if d < 2 * r then q + 1
         else if even q then q else q + 1)"

text \<open>
  The binary exponent \<open>e\<close> of the positive quotient \<open>n / d\<close>:
  \<open>2^e \<le> n / d < 2^(e + 1)\<close>.
\<close>

definition binary_exponent :: "nat \<Rightarrow> nat \<Rightarrow> int" where
  "binary_exponent n d =
     (let k = int (bit_length n) - int (bit_length d)
      in if d * 2 ^ nat k \<le> n * 2 ^ nat (- k) then k else k - 1)"

text \<open>
  Correct rounding of the quotient \<open>n / d\<close> with sign \<open>s\<close> to binary64 (round to nearest,
  ties to even; 53 significant bits, least exponent \<open>-1074\<close>); a rounded value of
  \<open>2^1024\<close> or more is an infinity.
\<close>

definition round_binary64 :: "bool \<Rightarrow> nat \<Rightarrow> nat \<Rightarrow> pyfloat" where
  "round_binary64 s n d =
     (if n = 0 then Finite s 0 0
      else
        let p = max (binary_exponent n d - 52) (- 1074);
            m = round_half_even (n * 2 ^ nat (- p)) (d * 2 ^ nat p)
        in if 971 < p \<or> (p = 971 \<and> 2 ^ 53 \<le> m) then Infinity s else Finite s m p)"

text \<open>The value \<open>n * 10^e\<close> with sign \<open>s\<close> as a float.\<close>

definition float_of_decimal :: "bool \<Rightarrow> nat \<Rightarrow> int \<Rightarrow> pyfloat" where
  "float_of_decimal s n e = round_binary64 s (n * 10 ^ nat e) (10 ^ nat (- e))"

text \<open>
  The whitespace of \<^verbatim>\<open>float(str)\<close>: the ASCII whitespace, and the two further
  spaces below 256 (\<^verbatim>\<open>\x85\<close>, \<^verbatim>\<open>\xa0\<close>), which the conversion turns into a blank.
\<close>

definition float_space :: "char \<Rightarrow> bool" where
  "float_space c = ((of_char c :: nat) \<in> {9, 10, 11, 12, 13, 32, 133, 160})"

text \<open>
  Underscores: each one must follow a digit and precede a digit; they are removed.
  The first argument is the previous character.
\<close>

fun strip_underscores :: "char \<Rightarrow> string \<Rightarrow> string option" where
  "strip_underscores prev [] = (if prev = CHR ''_'' then None else Some [])"
| "strip_underscores prev (c # cs) =
     (if c = CHR ''_'' then
        (if is_digit prev then strip_underscores c cs else None)
      else if prev = CHR ''_'' \<and> \<not> is_digit c then None
      else map_option ((#) c) (strip_underscores c cs))"

definition to_lower :: "char \<Rightarrow> char" where
  "to_lower c =
     (case map_of (zip ''ABCDEFGHIJKLMNOPQRSTUVWXYZ'' ''abcdefghijklmnopqrstuvwxyz'') c of
        Some l \<Rightarrow> l
      | None \<Rightarrow> c)"

text \<open>An optional sign: whether it is a minus, and the rest.\<close>

fun parse_sign :: "string \<Rightarrow> bool \<times> string" where
  "parse_sign (c # cs) =
     (if c = CHR ''-'' then (True, cs)
      else if c = CHR ''+'' then (False, cs)
      else (False, c # cs))"
| "parse_sign [] = (False, [])"

text \<open>
  An optional exponent part: \<^verbatim>\<open>e\<close> or \<^verbatim>\<open>E\<close>, an optional sign, one digit or more.
  Without a digit the exponent is not part of the number, and the input is left as it
  is.
\<close>

definition parse_exponent :: "string \<Rightarrow> int \<times> string" where
  "parse_exponent s =
     (case s of
        [] \<Rightarrow> (0, s)
      | c # cs \<Rightarrow>
          if c = CHR ''e'' \<or> c = CHR ''E'' then
            (let (neg, r) = parse_sign cs;
                 ds = takeWhile is_digit r
             in if ds = [] then (0, s)
                else ((if neg then - int (nat_of_digits ds) else int (nat_of_digits ds)),
                      dropWhile is_digit r))
          else (0, s))"

text \<open>
  The decimal numbers: an optional sign, digits, an optional point and digits, at
  least one digit in all, an optional exponent. The result is the float and the
  input that was not read; \<open>None\<close> when no number starts the input.
\<close>

definition parse_decimal :: "string \<Rightarrow> (pyfloat \<times> string) option" where
  "parse_decimal s =
     (let (neg, r0) = parse_sign s;
          ip = takeWhile is_digit r0;
          r1 = dropWhile is_digit r0;
          (fp, r2) = (case r1 of
                        c # cs \<Rightarrow> if c = CHR ''.''
                                  then (takeWhile is_digit cs, dropWhile is_digit cs)
                                  else ([], r1)
                      | [] \<Rightarrow> ([], r1))
      in if ip = [] \<and> fp = [] then None
         else
           let (e, r3) = parse_exponent r2
           in Some (float_of_decimal neg (nat_of_digits (ip @ fp)) (e - int (length fp)), r3))"

text \<open>
  The names: an optional sign, then \<^verbatim>\<open>inf\<close>, \<^verbatim>\<open>infinity\<close> or \<^verbatim>\<open>nan\<close> in
  any case of letters.
\<close>

definition parse_inf_or_nan :: "string \<Rightarrow> (pyfloat \<times> string) option" where
  "parse_inf_or_nan s =
     (let (neg, r) = parse_sign s
      in if map to_lower (take 3 r) = ''inf'' then
           (if map to_lower (take 5 (drop 3 r)) = ''inity''
            then Some (Infinity neg, drop 8 r)
            else Some (Infinity neg, drop 3 r))
         else if map to_lower (take 3 r) = ''nan'' then Some (NaN, drop 3 r)
         else None)"

definition string_to_double :: "string \<Rightarrow> (pyfloat \<times> string) option" where
  "string_to_double s =
     (case parse_decimal s of Some x \<Rightarrow> Some x | None \<Rightarrow> parse_inf_or_nan s)"

text \<open>
  \<^verbatim>\<open>float(s)\<close> for a string: underscores are checked and removed, whitespace is
  stripped at both ends, and the whole of what is left must be a number.
\<close>

definition float_from_string :: "string \<Rightarrow> py_error + pyfloat" where
  "float_from_string s =
     (case strip_underscores (CHR 0x00) (map (\<lambda>c. if float_space c then CHR '' '' else c) s) of
        None \<Rightarrow> Inl ValueError
      | Some t \<Rightarrow>
          let u = rev (dropWhile float_space (rev (dropWhile float_space t)))
          in if u = [] then Inl ValueError
             else (case string_to_double u of
                     None \<Rightarrow> Inl ValueError
                   | Some (x, rest) \<Rightarrow> if rest = [] then Inr x else Inl ValueError))"

text \<open>\<^verbatim>\<open>float(v)\<close>: an integer is rounded, and too large an integer overflows.\<close>

definition py_float :: "pyval \<Rightarrow> py_error + pyfloat" where
  "py_float v =
     (case v of
        PyNone \<Rightarrow> Inl TypeError
      | PyStr s \<Rightarrow> float_from_string s
      | PyInt n \<Rightarrow>
          (case round_binary64 (n < 0) (nat \<bar>n\<bar>) 1 of
             Infinity _ \<Rightarrow> Inl OverflowError
           | x \<Rightarrow> Inr x))"

text \<open>\<^verbatim>\<open>int(x)\<close> for a float: truncation; NaN and the infinities raise.\<close>

definition truncate_float :: "bool \<Rightarrow> nat \<Rightarrow> int \<Rightarrow> int" where
  "truncate_float s m p =
     (let a = (m * 2 ^ nat p) div 2 ^ nat (- p)
      in if s then - int a else int a)"

fun py_int :: "pyfloat \<Rightarrow> py_error + int" where
  "py_int NaN = Inl ValueError"
| "py_int (Infinity s) = Inl OverflowError"
| "py_int (Finite s m p) = Inr (truncate_float s m p)"

section \<open>\<^verbatim>\<open>datetime.strptime\<close> and \<^verbatim>\<open>isoformat\<close>\<close>

text \<open>
  \<^verbatim>\<open>strptime\<close> turns the format \<^verbatim>\<open>%Y-%m-%d %H:%M\<close> into the regular expression
  \<^verbatim>\<open>(\d\d\d\d)-(1[0-2]|0[1-9]|[1-9])-(3[0-1]|[1-2]\d|0[1-9]|[1-9]| [1-9])\s+(2[0-3]|[0-1]\d|\d):([0-5]\d|\d)\<close>
  and matches it at the start of the text. A matcher returns every way to match a
  prefix of its input, as the matched text and the rest, in the order in which the
  backtracking engine tries them.
\<close>

type_synonym matcher = "string \<Rightarrow> (string \<times> string) list"

definition cls :: "(char \<Rightarrow> bool) \<Rightarrow> matcher" where
  "cls P s = (case s of [] \<Rightarrow> [] | c # cs \<Rightarrow> if P c then [([c], cs)] else [])"

definition lit :: "char \<Rightarrow> matcher" where
  "lit a = cls (\<lambda>c. c = a)"

definition char_range :: "char \<Rightarrow> char \<Rightarrow> matcher" where
  "char_range lo hi =
     cls (\<lambda>c. (of_char lo :: nat) \<le> of_char c \<and> (of_char c :: nat) \<le> of_char hi)"

definition seq :: "matcher \<Rightarrow> matcher \<Rightarrow> matcher" where
  "seq m1 m2 s = [(t1 @ t2, r2). (t1, r1) \<leftarrow> m1 s, (t2, r2) \<leftarrow> m2 r1]"

definition alt :: "matcher \<Rightarrow> matcher \<Rightarrow> matcher" where
  "alt m1 m2 s = m1 s @ m2 s"

text \<open>One character or more of a class, the longest match first.\<close>

definition plus_greedy :: "(char \<Rightarrow> bool) \<Rightarrow> matcher" where
  "plus_greedy P s =
     map (\<lambda>k. (take k s, drop k s)) (rev [1 ..< Suc (length (takeWhile P s))])"

text \<open>\<^verbatim>\<open>\d\<close> and \<^verbatim>\<open>\s\<close> on the code points below 256.\<close>

definition re_digit :: matcher where
  "re_digit = cls is_digit"

definition regex_space :: "char \<Rightarrow> bool" where
  "regex_space c = ((of_char c :: nat) \<in> {9, 10, 11, 12, 13, 28, 29, 30, 31, 32, 133, 160})"

definition re_Y :: matcher where
  "re_Y = seq re_digit (seq re_digit (seq re_digit re_digit))"

definition re_m :: matcher where
  "re_m = alt (seq (lit CHR ''1'') (char_range CHR ''0'' CHR ''2''))
         (alt (seq (lit CHR ''0'') (char_range CHR ''1'' CHR ''9''))
              (char_range CHR ''1'' CHR ''9''))"

definition re_d :: matcher where
  "re_d = alt (seq (lit CHR ''3'') (char_range CHR ''0'' CHR ''1''))
         (alt (seq (char_range CHR ''1'' CHR ''2'') re_digit)
         (alt (seq (lit CHR ''0'') (char_range CHR ''1'' CHR ''9''))
         (alt (char_range CHR ''1'' CHR ''9'')
              (seq (lit CHR '' '') (char_range CHR ''1'' CHR ''9'')))))"

definition re_H :: matcher where
  "re_H = alt (seq (lit CHR ''2'') (char_range CHR ''0'' CHR ''3''))
         (alt (seq (char_range CHR ''0'' CHR ''1'') re_digit)
              re_digit)"

definition re_M :: matcher where
  "re_M = alt (seq (char_range CHR ''0'' CHR ''5'') re_digit) re_digit"

text \<open>
  All matches of the whole expression: the texts of the five groups and the rest of
  the input.
\<close>

definition match_format ::
  "string \<Rightarrow> ((string \<times> string \<times> string \<times> string \<times> string) \<times> string) list" where
  "match_format s =
     [((gY, gm, gd, gH, gM), r9).
        (gY, r1) \<leftarrow> re_Y s,
        (t2, r2) \<leftarrow> lit CHR ''-'' r1,
        (gm, r3) \<leftarrow> re_m r2,
        (t4, r4) \<leftarrow> lit CHR ''-'' r3,
        (gd, r5) \<leftarrow> re_d r4,
        (t6, r6) \<leftarrow> plus_greedy regex_space r5,
        (gH, r7) \<leftarrow> re_H r6,
        (t8, r8) \<leftarrow> lit CHR '':'' r7,
        (gM, r9) \<leftarrow> re_M r8]"

text \<open>\<^verbatim>\<open>int(group)\<close>: the day group may start with a blank, which \<^verbatim>\<open>int\<close> strips.\<close>

definition int_of_group :: "string \<Rightarrow> nat" where
  "int_of_group t = nat_of_digits (dropWhile (\<lambda>c. c = CHR '' '') t)"

record datetime =
  year :: nat
  month :: nat
  day :: nat
  hour :: nat
  minute :: nat
  second :: nat

definition is_leap :: "nat \<Rightarrow> bool" where
  "is_leap y = (y mod 4 = 0 \<and> (y mod 100 \<noteq> 0 \<or> y mod 400 = 0))"

definition days_in_month :: "nat \<Rightarrow> nat \<Rightarrow> nat" where
  "days_in_month y m =
     (if m = 2 then (if is_leap y then 29 else 28)
      else if m \<in> {4, 6, 9, 11} then 30 else 31)"

text \<open>The checks of the \<^verbatim>\<open>datetime\<close> constructor.\<close>

definition make_datetime :: "nat \<Rightarrow> nat \<Rightarrow> nat \<Rightarrow> nat \<Rightarrow> nat \<Rightarrow> py_error + datetime" where
  "make_datetime y m d H M =
     (if \<not> (1 \<le> y \<and> y \<le> 9999) then Inl ValueError
      else if \<not> (1 \<le> m \<and> m \<le> 12) then Inl ValueError
      else if \<not> (1 \<le> d \<and> d \<le> days_in_month y m) then Inl ValueError
      else if \<not> (H \<le> 23) then Inl ValueError
      else if \<not> (M \<le> 59) then Inl ValueError
      else Inr \<lparr>year = y, month = m, day = d, hour = H, minute = M, second = 0\<rparr>)"

text \<open>
  \<^verbatim>\<open>datetime.strptime(v, "%Y-%m-%d %H:%M")\<close>: the first match counts, and it must
  reach the end of the text. A value that is not a string is a \<^verbatim>\<open>TypeError\<close>.
\<close>

definition strptime :: "pyval \<Rightarrow> py_error + datetime" where
  "strptime v =
     (case v of
        PyStr s \<Rightarrow>
          (case match_format s of
             [] \<Rightarrow> Inl ValueError
           | ((gY, gm, gd, gH, gM), rest) # _ \<Rightarrow>
               if rest \<noteq> [] then Inl ValueError
               else make_datetime (int_of_group gY) (int_of_group gm) (int_of_group gd)
                      (int_of_group gH) (int_of_group gM))
      | _ \<Rightarrow> Inl TypeError)"

text \<open>The decimal digits of a number, and \<^verbatim>\<open>%0wd\<close>.\<close>

definition digit_char :: "nat \<Rightarrow> char" where
  "digit_char n = ''0123456789'' ! n"

function dec_digits :: "nat \<Rightarrow> string" where
  "dec_digits n =
     (if n < 10 then [digit_char n]
      else dec_digits (n div 10) @ [digit_char (n mod 10)])"
  by pat_completeness auto
termination
  by (relation "measure (\<lambda>n. n)") auto

declare dec_digits.simps [simp del]

definition zero_pad :: "nat \<Rightarrow> nat \<Rightarrow> string" where
  "zero_pad w n = replicate (w - length (dec_digits n)) CHR ''0'' @ dec_digits n"

text \<open>
  \<^verbatim>\<open>isoformat()\<close> of a datetime without microseconds and without time zone:
  \<^verbatim>\<open>"%04d-%02d-%02d" + "T" + "%02d:%02d:%02d"\<close>.
\<close>

definition isoformat :: "datetime \<Rightarrow> string" where
  "isoformat dt =
     zero_pad 4 (year dt) @ ''-'' @ zero_pad 2 (month dt) @ ''-'' @ zero_pad 2 (day dt)
     @ ''T'' @ zero_pad 2 (hour dt) @ '':'' @ zero_pad 2 (minute dt) @ '':''
     @ zero_pad 2 (second dt)"

section \<open>The loop body: one record per row\<close>

text \<open>The dictionary \<^verbatim>\<open>record\<close> of the script, with its eighteen keys.\<close>

record output_record =
  rec_id :: pyval
  firstName :: pyval
  lastName :: pyval
  email :: pyval
  phone :: pyval
  company :: pyval
  industry :: pyval
  state :: pyval
  createDate :: string
  trafficSource :: pyval
  trafficSourceDetail :: pyval
  originalTrafficSource :: pyval
  formType :: pyval
  isComplete :: bool
  recordSource :: pyval
  message :: pyval
  leadStatus :: pyval
  formSubmissions :: int

text \<open>\<^verbatim>\<open>row.get(k, "") or ""\<close>\<close>

definition get_or_empty :: "row \<Rightarrow> string \<Rightarrow> pyval" where
  "get_or_empty r k = py_or (dict_get r k (PyStr [])) (PyStr [])"

text \<open>\<^verbatim>\<open>int(float(row.get("Number of Form Submissions", 0) or 0))\<close>\<close>

definition form_submissions :: "row \<Rightarrow> py_error + int" where
  "form_submissions r =
     (case py_float (py_or (dict_get r ''Number of Form Submissions'' (PyInt 0)) (PyInt 0)) of
        Inl e \<Rightarrow> Inl e
      | Inr x \<Rightarrow> py_int x)"

text \<open>
  The \<^verbatim>\<open>try\<close> statement on the create date: any exception of the parse is caught
  and gives the empty string.
\<close>

definition format_create_date :: "row \<Rightarrow> string" where
  "format_create_date r =
     (let raw_date = dict_get r ''Create Date'' (PyStr [])
      in case strptime raw_date of
           Inr parsed_date \<Rightarrow> isoformat parsed_date @ ''Z''
         | Inl e \<Rightarrow> [])"

text \<open>
  The body of the loop. The entries of the dictionary are evaluated in order; only the
  last one, \<^verbatim>\<open>formSubmissions\<close>, can raise, and nothing catches it.
\<close>

definition normalize_row :: "row \<Rightarrow> py_error + output_record" where
  "normalize_row r =
     (case form_submissions r of
        Inl e \<Rightarrow> Inl e
      | Inr n \<Rightarrow>
          Inr \<lparr>rec_id = get_or_empty r ''Record ID'',
               firstName = get_or_empty r ''First Name'',
               lastName = get_or_empty r ''Last Name'',
               email = get_or_empty r ''Email'',
               phone = get_or_empty r ''Phone Number'',
               company = get_or_empty r ''Company Name'',
               industry = get_or_empty r ''Your Industry'',
               state = get_or_empty r ''State/Region'',
               createDate = format_create_date r,
               trafficSource = get_or_empty r ''Latest Traffic Source'',
               trafficSourceDetail = get_or_empty r ''Latest Traffic Source Drill-Down 1'',
               originalTrafficSource = get_or_empty r ''Original Traffic Source'',
               formType = get_or_empty r ''Record source detail 1'',
               isComplete = (py_bool (dict_get r ''Company Name'' (PyStr []))
                             \<and> py_bool (dict_get r ''Your Industry'' (PyStr []))),
               recordSource = get_or_empty r ''Record source'',
               message = get_or_empty r ''Message'',
               leadStatus = get_or_empty r ''Lead Status'',
               formSubmissions = n\<rparr>)"

section \<open>The loop over the rows\<close>

text \<open>
  \<^verbatim>\<open>for row in reader: ...; data.append(record)\<close>. The first argument is \<^verbatim>\<open>data\<close>
  so far. An exception of the body ends the run before anything is written.
\<close>

fun convert_loop :: "output_record list \<Rightarrow> row list \<Rightarrow> py_error + output_record list" where
  "convert_loop data [] = Inr data"
| "convert_loop data (r # rs) =
     (case normalize_row r of
        Inl e \<Rightarrow> Inl e
      | Inr rec \<Rightarrow> convert_loop (data @ [rec]) rs)"

definition convert :: "row list \<Rightarrow> py_error + output_record list" where
  "convert rs = convert_loop [] rs"

section \<open>What the specification says of a cell, and example rows\<close>

text \<open>
  The specification's wording for the plain string fields: the source cell verbatim,
  or the empty string when the cell is absent or empty.
\<close>

definition source_cell_or_empty :: "row \<Rightarrow> string \<Rightarrow> string" where
  "source_cell_or_empty r k = (case r k of Some (Some s) \<Rightarrow> s | _ \<Rightarrow> [])"

text \<open>The real number that a float stands for (0 for the values that are no numbers).\<close>

definition float_value :: "pyfloat \<Rightarrow> real" where
  "float_value x =
     (case x of
        Finite sg m p \<Rightarrow> (if sg then - 1 else 1) * (real m * 2 ^ nat p / 2 ^ nat (- p))
      | _ \<Rightarrow> 0)"

text \<open>
  A decimal numeral as the specification's examples write it: an optional minus sign,
  the digits before the point, the digits after it (none: no point), and the digits of
  an exponent (none: no exponent); and the number that the numeral stands for.
\<close>

definition numeral_text :: "bool \<Rightarrow> string \<Rightarrow> string \<Rightarrow> string \<Rightarrow> string" where
  "numeral_text neg ip fp es =
     (if neg then ''-'' else []) @ ip @ (if fp = [] then [] else CHR ''.'' # fp)
     @ (if es = [] then [] else CHR ''e'' # es)"

definition numeral_value :: "bool \<Rightarrow> string \<Rightarrow> string \<Rightarrow> string \<Rightarrow> real" where
  "numeral_value neg ip fp es =
     (if neg then - 1 else 1)
     * (real (nat_of_digits (ip @ fp)) * 10 ^ nat_of_digits es / 10 ^ length fp)"

text \<open>Truncation of a number to an integer, toward zero.\<close>

definition truncate_toward_zero :: "real \<Rightarrow> int" where
  "truncate_toward_zero x = (if x < 0 then \<lceil>x\<rceil> else \<lfloor>x\<rfloor>)"

text \<open>Rows whose form-submissions cell has an exponent, and a fraction of zero.\<close>

definition exponent_row :: row where
  "exponent_row = [''Number of Form Submissions'' \<mapsto> Some ''1e2'']"

definition decimal_row :: row where
  "decimal_row = [''Number of Form Submissions'' \<mapsto> Some ''3.0'']"









text \<open>The row of the specification's end-to-end scenario, and its record.\<close>

definition acme_row :: row where
  "acme_row =
     [''Record ID'' \<mapsto> Some ''42'', ''First Name'' \<mapsto> Some ''Ann'',
      ''Company Name'' \<mapsto> Some ''Acme'', ''Your Industry'' \<mapsto> Some ''Tech'',
      ''Create Date'' \<mapsto> Some ''2023-01-01 09:00'',
      ''Number of Form Submissions'' \<mapsto> Some ''2'']"

definition acme_record :: output_record where
  "acme_record =
     \<lparr>rec_id = PyStr ''42'', firstName = PyStr ''Ann'', lastName = PyStr [],
      email = PyStr [], phone = PyStr [], company = PyStr ''Acme'',
      industry = PyStr ''Tech'', state = PyStr [],
      createDate = ''2023-01-01T09:00:00Z'',
      trafficSource = PyStr [], trafficSourceDetail = PyStr [],
      originalTrafficSource = PyStr [], formType = PyStr [], isComplete = True,
      recordSource = PyStr [], message = PyStr [], leadStatus = PyStr [],
      formSubmissions = 2\<rparr>"

text \<open>A row without any of the columns, and its record.\<close>

definition blank_record :: output_record where
  "blank_record =
     \<lparr>rec_id = PyStr [], firstName = PyStr [], lastName = PyStr [],
      email = PyStr [], phone = PyStr [], company = PyStr [],
      industry = PyStr [], state = PyStr [], createDate = [],
      trafficSource = PyStr [], trafficSourceDetail = PyStr [],
      originalTrafficSource = PyStr [], formType = PyStr [], isComplete = False,
      recordSource = PyStr [], message = PyStr [], leadStatus = PyStr [],
      formSubmissions = 0\<rparr>"

text \<open>A row whose form-submissions cell is a negative number with a fraction.\<close>

definition negative_row :: row where
  "negative_row = [''Number of Form Submissions'' \<mapsto> Some ''-2.7'']"

text \<open>A row whose form-submissions cell is not a number.\<close>

definition bad_row :: row where
  "bad_row = [''Number of Form Submissions'' \<mapsto> Some ''abc'']"

section \<open>Lemmas on the loop body\<close>

lemma get_or_empty_eq: "get_or_empty r k = PyStr (source_cell_or_empty r k)"
  by (simp add: get_or_empty_def py_or_def dict_get_def source_cell_or_empty_def
      split: option.splits)

lemma py_bool_dict_get:
  "py_bool (dict_get r k (PyStr [])) \<longleftrightarrow> (\<exists>s. r k = Some (Some s) \<and> s \<noteq> [])"
  by (auto simp: dict_get_def split: option.splits)

lemma py_float_zero: "py_float (PyInt 0) = Inr (Finite False 0 0)"
  by (simp add: py_float_def round_binary64_def)

lemma truncate_float_zero: "truncate_float False 0 0 = 0"
  by (simp add: truncate_float_def)

lemma form_submissions_default:
  assumes "r ''Number of Form Submissions'' = None
         \<or> r ''Number of Form Submissions'' = Some None
         \<or> r ''Number of Form Submissions'' = Some (Some [])"
  shows "form_submissions r = Inr 0"
proof -
  from assms
  have "py_or (dict_get r ''Number of Form Submissions'' (PyInt 0)) (PyInt 0) = PyInt 0"
    by (auto simp: py_or_def dict_get_def)
  then show ?thesis
    by (simp add: form_submissions_def py_float_zero truncate_float_zero)
qed

lemma form_submissions_text:
  assumes "r ''Number of Form Submissions'' = Some (Some s)" and "s \<noteq> []"
  shows "form_submissions r =
           (case float_from_string s of Inl e \<Rightarrow> Inl e | Inr x \<Rightarrow> py_int x)"
proof -
  from assms
  have "py_or (dict_get r ''Number of Form Submissions'' (PyInt 0)) (PyInt 0) = PyStr s"
    by (simp add: py_or_def dict_get_def)
  then show ?thesis
    by (simp add: form_submissions_def py_float_def)
qed

lemma float_from_string_error: "float_from_string s = Inl e \<Longrightarrow> e = ValueError"
  unfolding float_from_string_def Let_def
  by (simp split: option.splits if_splits prod.splits)

lemma normalize_row_Inr_iff:
  "(normalize_row r = Inr rec) \<longleftrightarrow>
     (\<exists>n. form_submissions r = Inr n \<and>
        rec = \<lparr>rec_id = get_or_empty r ''Record ID'',
               firstName = get_or_empty r ''First Name'',
               lastName = get_or_empty r ''Last Name'',
               email = get_or_empty r ''Email'',
               phone = get_or_empty r ''Phone Number'',
               company = get_or_empty r ''Company Name'',
               industry = get_or_empty r ''Your Industry'',
               state = get_or_empty r ''State/Region'',
               createDate = format_create_date r,
               trafficSource = get_or_empty r ''Latest Traffic Source'',
               trafficSourceDetail = get_or_empty r ''Latest Traffic Source Drill-Down 1'',
               originalTrafficSource = get_or_empty r ''Original Traffic Source'',
               formType = get_or_empty r ''Record source detail 1'',
               isComplete = (py_bool (dict_get r ''Company Name'' (PyStr []))
                             \<and> py_bool (dict_get r ''Your Industry'' (PyStr []))),
               recordSource = get_or_empty r ''Record source'',
               message = get_or_empty r ''Message'',
               leadStatus = get_or_empty r ''Lead Status'',
               formSubmissions = n\<rparr>)"
  unfolding normalize_row_def by (cases "form_submissions r") auto

lemma normalize_row_fields:
  assumes "normalize_row r = Inr rec"
  shows "rec_id rec = get_or_empty r ''Record ID''"
    and "firstName rec = get_or_empty r ''First Name''"
    and "lastName rec = get_or_empty r ''Last Name''"
    and "email rec = get_or_empty r ''Email''"
    and "phone rec = get_or_empty r ''Phone Number''"
    and "company rec = get_or_empty r ''Company Name''"
    and "industry rec = get_or_empty r ''Your Industry''"
    and "state rec = get_or_empty r ''State/Region''"
    and "createDate rec = format_create_date r"
    and "trafficSource rec = get_or_empty r ''Latest Traffic Source''"
    and "trafficSourceDetail rec = get_or_empty r ''Latest Traffic Source Drill-Down 1''"
    and "originalTrafficSource rec = get_or_empty r ''Original Traffic Source''"
    and "formType rec = get_or_empty r ''Record source detail 1''"
    and "isComplete rec = (py_bool (dict_get r ''Company Name'' (PyStr []))
                             \<and> py_bool (dict_get r ''Your Industry'' (PyStr [])))"
    and "recordSource rec = get_or_empty r ''Record source''"
    and "message rec = get_or_empty r ''Message''"
    and "leadStatus rec = get_or_empty r ''Lead Status''"
    and "form_submissions r = Inr (formSubmissions rec)"
  using assms unfolding normalize_row_Inr_iff by auto

lemma normalize_row_ok_iff:
  "(\<exists>rec. normalize_row r = Inr rec) \<longleftrightarrow> (\<exists>n. form_submissions r = Inr n)"
  by (auto simp: normalize_row_Inr_iff)

lemma form_submissions_fails:
  assumes "r ''Number of Form Submissions'' = Some (Some s)" and "s \<noteq> []"
    and "\<forall>x. float_from_string s \<noteq> Inr x"
  shows "form_submissions r = Inl ValueError"
proof -
  from assms(3) obtain e where e: "float_from_string s = Inl e"
    by (cases "float_from_string s") auto
  then have "e = ValueError" by (rule float_from_string_error)
  with e show ?thesis
    using assms(1,2) by (simp add: form_submissions_text [of r s])
qed

lemma float_from_string_Nil: "float_from_string [] = Inl ValueError"
  by (simp add: float_from_string_def)

lemma normalize_row_formSubmissions:
  "form_submissions r = Inr n \<Longrightarrow>
     \<exists>rec. normalize_row r = Inr rec \<and> formSubmissions rec = n"
  by (simp add: normalize_row_def)

text \<open>\<^verbatim>\<open>int\<close> of a finite float is the integer part of its value.\<close>

lemma truncate_float_floor:
  "truncate_float sg m p =
     (if sg then - \<lfloor>real m * 2 ^ nat p / 2 ^ nat (- p)\<rfloor>
      else \<lfloor>real m * 2 ^ nat p / 2 ^ nat (- p)\<rfloor>)"
proof -
  have "\<lfloor>real (m * 2 ^ nat p) / real (2 ^ nat (- p))\<rfloor>
          = int ((m * 2 ^ nat p) div 2 ^ nat (- p))"
    by (rule floor_divide_of_nat_eq)
  then show ?thesis
    by (simp add: truncate_float_def Let_def)
qed

lemma truncate_float_value:
  "truncate_float sg m p =
     (if float_value (Finite sg m p) < 0 then \<lceil>float_value (Finite sg m p)\<rceil>
      else \<lfloor>float_value (Finite sg m p)\<rfloor>)"
proof -
  define a :: real where "a = real m * 2 ^ nat p / 2 ^ nat (- p)"
  have a0: "0 \<le> a" by (simp add: a_def)
  have t: "truncate_float sg m p = (if sg then - \<lfloor>a\<rfloor> else \<lfloor>a\<rfloor>)"
    by (simp add: truncate_float_floor a_def)
  have v: "float_value (Finite sg m p) = (if sg then - a else a)"
    by (simp add: float_value_def a_def)
  show ?thesis
  proof (cases sg)
    case True
    have "(if - a < 0 then \<lceil>- a\<rceil> else \<lfloor>- a\<rfloor>) = - \<lfloor>a\<rfloor>"
    proof (cases "a = 0")
      case True
      then show ?thesis by simp
    next
      case False
      with a0 have "- a < 0" by simp
      then show ?thesis by (simp add: ceiling_minus)
    qed
    with True show ?thesis
      unfolding t v by (auto split: if_splits)
  next
    case False
    have "\<not> a < 0" using a0 by simp
    with False show ?thesis
      unfolding t v by simp
  qed
qed

section \<open>Lemmas on the date\<close>





















































section \<open>Lemmas on the loop\<close>

lemma convert_loop_Inr_iff:
  "convert_loop data rs = Inr out \<longleftrightarrow>
     (\<exists>recs. out = data @ recs \<and> map normalize_row rs = map Inr recs)"
proof (induction rs arbitrary: data)
  case Nil
  then show ?case by auto
next
  case (Cons r rs)
  show ?case
  proof (cases "normalize_row r")
    case (Inl e)
    then show ?thesis by auto
  next
    case (Inr rec)
    then show ?thesis
      using Cons.IH [of "data @ [rec]"]
      by (auto simp: map_eq_Cons_conv Cons_eq_map_conv)
  qed
qed

lemma convert_Inr_iff:
  "convert rs = Inr recs \<longleftrightarrow> map normalize_row rs = map Inr recs"
  by (auto simp: convert_def convert_loop_Inr_iff)

lemma map_eq_iff_nth:
  "map f xs = map g ys \<longleftrightarrow>
     (length ys = length xs \<and> (\<forall>i<length xs. f (xs ! i) = g (ys ! i)))"
  by (auto simp: list_eq_iff_nth_eq)

lemma convert_aborts:
  assumes "r \<in> set rs" and "normalize_row r = Inl e"
  shows "\<exists>e'. convert rs = Inl e'"
proof (cases "convert rs")
  case (Inl e')
  then show ?thesis by blast
next
  case (Inr recs)
  then have "map normalize_row rs = map Inr recs"
    by (simp add: convert_Inr_iff)
  then have "normalize_row ` set rs = Inr ` set recs"
    by (metis list.set_map)
  with assms show ?thesis by force
qed

section \<open>Evaluation of the example rows\<close>

lemma float_from_string_abc: "float_from_string ''abc'' = Inl ValueError"
proof -
  have 1: "strip_underscores (CHR 0x00)
             (map (\<lambda>c. if float_space c then CHR '' '' else c) ''abc'') = Some ''abc''"
    by (simp add: float_space_def is_digit_def)
  have 2: "parse_decimal ''abc'' = None"
    by (simp add: parse_decimal_def is_digit_def)
  have 3: "parse_inf_or_nan ''abc'' = None"
    by (simp add: parse_inf_or_nan_def to_lower_def)
  show ?thesis
    by (simp add: float_from_string_def 1 float_space_def string_to_double_def 2 3)
qed

lemma float_from_string_2: "float_from_string ''2'' = Inr (float_of_decimal False 2 0)"
proof -
  have 1: "strip_underscores (CHR 0x00)
             (map (\<lambda>c. if float_space c then CHR '' '' else c) ''2'') = Some ''2''"
    by (simp add: float_space_def is_digit_def)
  have 2: "parse_decimal ''2'' = Some (float_of_decimal False 2 0, [])"
    by (simp add: parse_decimal_def parse_exponent_def is_digit_def nat_of_digits_def
        digit_val_def)
  show ?thesis
    by (simp add: float_from_string_def 1 float_space_def string_to_double_def 2)
qed

lemma py_int_2: "py_int (float_of_decimal False 2 0) = Inr 2"
  by (simp add: float_of_decimal_def round_binary64_def binary_exponent_def
      round_half_even_def truncate_float_def Let_def)

lemma form_submissions_acme_row: "form_submissions acme_row = Inr 2"
proof -
  have "acme_row ''Number of Form Submissions'' = Some (Some ''2'')"
    by (simp add: acme_row_def)
  then show ?thesis
    by (simp add: form_submissions_text [of acme_row "''2''"] float_from_string_2 py_int_2)
qed

lemma float_from_string_0: "float_from_string ''0'' = Inr (float_of_decimal False 0 0)"
proof -
  have 1: "strip_underscores (CHR 0x00)
             (map (\<lambda>c. if float_space c then CHR '' '' else c) ''0'') = Some ''0''"
    by (simp add: float_space_def is_digit_def)
  have 2: "parse_decimal ''0'' = Some (float_of_decimal False 0 0, [])"
    by (simp add: parse_decimal_def parse_exponent_def is_digit_def nat_of_digits_def
        digit_val_def)
  show ?thesis
    by (simp add: float_from_string_def 1 float_space_def string_to_double_def 2)
qed

lemma py_int_0: "py_int (float_of_decimal False 0 0) = Inr 0"
  by (simp add: float_of_decimal_def round_binary64_def binary_exponent_def
      round_half_even_def truncate_float_def Let_def)

lemma form_submissions_0:
  "form_submissions (r(''Number of Form Submissions'' \<mapsto> Some ''0'')) = Inr 0"
  by (simp add: form_submissions_text [of _ "''0''"] float_from_string_0 py_int_0)

lemma float_from_string_3: "float_from_string ''3'' = Inr (float_of_decimal False 3 0)"
proof -
  have 1: "strip_underscores (CHR 0x00)
             (map (\<lambda>c. if float_space c then CHR '' '' else c) ''3'') = Some ''3''"
    by (simp add: float_space_def is_digit_def)
  have 2: "parse_decimal ''3'' = Some (float_of_decimal False 3 0, [])"
    by (simp add: parse_decimal_def parse_exponent_def is_digit_def nat_of_digits_def
        digit_val_def)
  show ?thesis
    by (simp add: float_from_string_def 1 float_space_def string_to_double_def 2)
qed

lemma py_int_3: "py_int (float_of_decimal False 3 0) = Inr 3"
  by (simp add: float_of_decimal_def round_binary64_def binary_exponent_def
      round_half_even_def truncate_float_def Let_def)

lemma form_submissions_3:
  "form_submissions (r(''Number of Form Submissions'' \<mapsto> Some ''3'')) = Inr 3"
  by (simp add: form_submissions_text [of _ "''3''"] float_from_string_3 py_int_3)

lemma float_from_string_2_7: "float_from_string ''2.7'' = Inr (float_of_decimal False 27 (- 1))"
proof -
  have 1: "strip_underscores (CHR 0x00)
             (map (\<lambda>c. if float_space c then CHR '' '' else c) ''2.7'') = Some ''2.7''"
    by (simp add: float_space_def is_digit_def)
  have 2: "parse_decimal ''2.7'' = Some (float_of_decimal False 27 (- 1), [])"
    by (simp add: parse_decimal_def parse_exponent_def is_digit_def nat_of_digits_def
        digit_val_def)
  show ?thesis
    by (simp add: float_from_string_def 1 float_space_def string_to_double_def 2)
qed

lemma py_int_2_7: "py_int (float_of_decimal False 27 (- 1)) = Inr 2"
  by (simp add: float_of_decimal_def round_binary64_def binary_exponent_def
      round_half_even_def truncate_float_def Let_def)

lemma form_submissions_2_7:
  "form_submissions (r(''Number of Form Submissions'' \<mapsto> Some ''2.7'')) = Inr 2"
  by (simp add: form_submissions_text [of _ "''2.7''"] float_from_string_2_7 py_int_2_7)

lemma float_of_decimal_neg_2_7:
  "float_of_decimal True 27 (- 1) = Finite True 6079859496950170 (- 51)"
  by (simp add: float_of_decimal_def round_binary64_def binary_exponent_def
      round_half_even_def Let_def)

lemma float_from_string_neg_2_7:
  "float_from_string ''-2.7'' = Inr (Finite True 6079859496950170 (- 51))"
proof -
  have 1: "strip_underscores (CHR 0x00)
             (map (\<lambda>c. if float_space c then CHR '' '' else c) ''-2.7'') = Some ''-2.7''"
    by (simp add: float_space_def is_digit_def)
  have 2: "parse_decimal ''-2.7'' = Some (float_of_decimal True 27 (- 1), [])"
    by (simp add: parse_decimal_def parse_exponent_def is_digit_def nat_of_digits_def
        digit_val_def)
  show ?thesis
    by (simp add: float_from_string_def 1 float_space_def string_to_double_def 2
        float_of_decimal_neg_2_7)
qed

lemmas strptime_eval =
  strptime_def match_format_def re_Y_def re_m_def re_d_def re_H_def re_M_def re_digit_def
  seq_def alt_def lit_def cls_def char_range_def plus_greedy_def regex_space_def is_digit_def
  int_of_group_def nat_of_digits_def digit_val_def make_datetime_def days_in_month_def
  is_leap_def isoformat_def zero_pad_def digit_char_def dec_digits.simps

lemma format_create_date_acme_row: "format_create_date acme_row = ''2023-01-01T09:00:00Z''"
  by (simp add: format_create_date_def dict_get_def acme_row_def strptime_eval)

lemma format_create_date_absent:
  assumes "r ''Create Date'' = None \<or> r ''Create Date'' = Some None
         \<or> r ''Create Date'' = Some (Some [])"
  shows "format_create_date r = []"
  using assms
  by (auto simp: format_create_date_def dict_get_def strptime_def match_format_def re_Y_def
      re_digit_def seq_def cls_def)

lemma normalize_acme_row: "normalize_row acme_row = Inr acme_record"
  by (simp only: normalize_row_def form_submissions_acme_row format_create_date_acme_row
        sum.case)
     (simp add: acme_record_def get_or_empty_eq source_cell_or_empty_def dict_get_def
        acme_row_def)

lemma normalize_blank_row: "normalize_row Map.empty = Inr blank_record"
  by (simp add: normalize_row_def form_submissions_default format_create_date_absent
      blank_record_def get_or_empty_eq source_cell_or_empty_def dict_get_def)

lemma normalize_bad_row: "normalize_row bad_row = Inl ValueError"
proof -
  have "form_submissions bad_row = Inl ValueError"
    by (rule form_submissions_fails [of bad_row "''abc''"])
       (simp_all add: bad_row_def float_from_string_abc)
  then show ?thesis by (simp add: normalize_row_def)
qed

section \<open>Lemmas on the float conversion\<close>

text \<open>
  A quotient \<open>n / d\<close> with \<open>n < 2^53\<close>, rounded to binary64 and then truncated, is
  \<open>n div d\<close>: the rounding never reaches the next integer.
\<close>

declare bit_length.simps [simp del]

lemma bit_length_0: "bit_length 0 = 0"
  by (subst bit_length.simps) simp

lemma bit_length_pos: "0 < n \<Longrightarrow> bit_length n = Suc (bit_length (n div 2))"
  by (subst bit_length.simps) simp

lemma bit_length_upper: "n < 2 ^ bit_length n"
proof (induction n rule: less_induct)
  case (less n)
  show ?case
  proof (cases "n = 0")
    case True
    then show ?thesis by (simp add: bit_length_0)
  next
    case False
    then have "n div 2 < n" by simp
    then have "n div 2 < 2 ^ bit_length (n div 2)" by (rule less.IH)
    then have "n < 2 * 2 ^ bit_length (n div 2)" by linarith
    with False show ?thesis by (simp add: bit_length_pos)
  qed
qed

lemma bit_length_lower: "0 < n \<Longrightarrow> 2 ^ bit_length n \<le> 2 * n"
proof (induction n rule: less_induct)
  case (less n)
  show ?case
  proof (cases "n div 2 = 0")
    case True
    with less.prems have "n = 1" by (simp add: div_eq_0_iff) 
    then show ?thesis by (simp add: bit_length_pos bit_length_0)
  next
    case False
    then have "0 < n div 2" by simp
    moreover have "n div 2 < n" using less.prems by simp
    ultimately have "2 ^ bit_length (n div 2) \<le> 2 * (n div 2)" by (rule less.IH [rotated])
    then have "2 * 2 ^ bit_length (n div 2) \<le> 2 * n" by linarith
    with less.prems show ?thesis by (simp add: bit_length_pos)
  qed
qed

lemma round_half_even_bounds:
  assumes "0 < d"
  shows "N div d \<le> round_half_even N d" and "2 * d * round_half_even N d \<le> 2 * N + d"
proof -
  define q r where "q = N div d" and "r = N mod d"
  have N: "N = d * q + r" by (simp add: q_def r_def)
  show "N div d \<le> round_half_even N d"
    by (simp add: round_half_even_def Let_def)
  have c: "round_half_even N d = q \<or> (round_half_even N d = q + 1 \<and> d \<le> 2 * r)"
    by (auto simp: round_half_even_def Let_def q_def r_def)
  have "2 * d * m \<le> 2 * (d * q + r) + d" if "m = q \<or> (m = q + 1 \<and> d \<le> 2 * r)" for m
    using that by (auto simp: algebra_simps)
  from this [OF c] show "2 * d * round_half_even N d \<le> 2 * N + d"
    by (simp only: N [symmetric])
qed

lemma round_truncate_core:
  assumes d: "0 < d" and gap: "d < 2 ^ Suc j * (d - n mod d)"
  shows "round_half_even (n * 2 ^ j) d div 2 ^ j = n div d"
proof -
  define F r m where "F = n div d" and "r = n mod d" and "m = round_half_even (n * 2 ^ j) d"
  have n: "n = F * d + r" by (simp add: F_def r_def)
  have r: "r < d" using d by (simp add: r_def)
  have "F * 2 ^ j * d \<le> n * 2 ^ j" by (simp add: n algebra_simps)
  then have "(F * 2 ^ j * d) div d \<le> (n * 2 ^ j) div d" by (rule div_le_mono)
  with d have "F * 2 ^ j \<le> (n * 2 ^ j) div d" by simp
  also have "\<dots> \<le> m" unfolding m_def by (rule round_half_even_bounds(1) [OF d])
  finally have lower: "2 ^ j * F \<le> m" by (simp add: mult.commute)
  have "2 * d * m \<le> 2 * (n * 2 ^ j) + d"
    unfolding m_def by (rule round_half_even_bounds(2) [OF d])
  also have "\<dots> = 2 * d * F * 2 ^ j + (2 ^ Suc j * r + d)"
    by (simp add: n algebra_simps)
  also have "2 ^ Suc j * r + d < 2 ^ Suc j * d"
  proof -
    from gap have "d < 2 ^ Suc j * (d - r)" by (simp add: r_def)
    also have "\<dots> = 2 ^ Suc j * d - 2 ^ Suc j * r" by (simp add: diff_mult_distrib2)
    finally have "d + 2 ^ Suc j * r < 2 ^ Suc j * d" by linarith
    then show ?thesis by (simp add: add.commute)
  qed
  finally have "2 * d * m < 2 * d * F * 2 ^ j + 2 ^ Suc j * d" by simp
  also have "\<dots> = 2 * d * (2 ^ j * Suc F)" by (simp add: algebra_simps)
  finally have upper: "m < 2 ^ j * Suc F" using d by simp
  from lower upper have "m div 2 ^ j = F" by (rule div_nat_eqI)
  then show ?thesis by (simp add: m_def F_def)
qed

lemma binary_exponent_le:
  assumes "0 < d" and "n < 2 ^ 53"
  shows "binary_exponent n d \<le> 52"
proof -
  have a: "bit_length n \<le> 53"
  proof (rule ccontr)
    assume "\<not> bit_length n \<le> 53"
    then have l: "54 \<le> bit_length n" by simp
    then have "0 < n" by (cases "n = 0") (simp_all add: bit_length_0)
    then have "2 ^ bit_length n \<le> 2 * n" by (rule bit_length_lower)
    moreover from l have "(2::nat) ^ 54 \<le> 2 ^ bit_length n"
      by (rule power_increasing) simp
    ultimately show False using assms(2) by simp
  qed
  from assms(1) have b: "1 \<le> bit_length d" by (simp add: bit_length_pos)
  have "binary_exponent n d \<le> int (bit_length n) - int (bit_length d)"
    by (simp add: binary_exponent_def Let_def)
  with a b show ?thesis by linarith
qed

text \<open>\<open>2^e \<le> n / d\<close>\<close>

lemma binary_exponent_lower:
  assumes "0 < d" and "0 < n"
  shows "d * 2 ^ nat (binary_exponent n d) \<le> n * 2 ^ nat (- binary_exponent n d)"
proof -
  define a b where "a = bit_length n" and "b = bit_length d"
  define k where "k = int a - int b"
  have d: "d < 2 ^ b" unfolding b_def by (rule bit_length_upper)
  have n: "2 ^ a \<le> 2 * n" unfolding a_def using assms(2) by (rule bit_length_lower)
  have a: "1 \<le> a" using assms(2) by (simp add: a_def bit_length_pos)
  show ?thesis
  proof (cases "d * 2 ^ nat k \<le> n * 2 ^ nat (- k)")
    case True
    then show ?thesis
      by (simp add: binary_exponent_def Let_def k_def a_def b_def)
  next
    case False
    then have e: "binary_exponent n d = k - 1"
      by (simp add: binary_exponent_def Let_def k_def a_def b_def)
    show ?thesis
    proof (cases "b < a")
      case True
      then have "nat (k - 1) = a - 1 - b" "nat (- (k - 1)) = 0"
        by (simp_all add: k_def)
      moreover have "2 * (d * 2 ^ (a - 1 - b)) \<le> 2 * n"
      proof -
        have "2 * (d * 2 ^ (a - 1 - b)) \<le> 2 * (2 ^ b * 2 ^ (a - 1 - b))"
          using d by simp
        also have "\<dots> = 2 ^ (Suc (b + (a - 1 - b)))" by (simp add: power_add)
        also have "Suc (b + (a - 1 - b)) = a" using True by simp
        finally show ?thesis using n by simp
      qed
      ultimately show ?thesis by (simp add: e)
    next
      case False
      then have "nat (k - 1) = 0" "nat (- (k - 1)) = Suc b - a"
        by (simp_all add: k_def)
      moreover have "2 * d \<le> 2 * (n * 2 ^ (Suc b - a))"
      proof -
        have "2 * d \<le> 2 * 2 ^ b" using d by simp
        also have "\<dots> = 2 ^ a * 2 ^ (Suc b - a)"
          using False by (simp add: power_add [symmetric])
        also have "\<dots> \<le> (2 * n) * 2 ^ (Suc b - a)"
          using n by simp
        finally show ?thesis by simp
      qed
      ultimately show ?thesis by (simp add: e)
    qed
  qed
qed

text \<open>\<open>n / d < 2^(e + 1)\<close>\<close>

lemma binary_exponent_upper:
  assumes "0 < d" and "0 < n"
  shows "n * 2 ^ nat (- (binary_exponent n d + 1)) < d * 2 ^ nat (binary_exponent n d + 1)"
proof -
  define a b where "a = bit_length n" and "b = bit_length d"
  define k where "k = int a - int b"
  have n: "n < 2 ^ a" unfolding a_def by (rule bit_length_upper)
  have d: "2 ^ b \<le> 2 * d" unfolding b_def using assms(1) by (rule bit_length_lower)
  have b: "1 \<le> b" using assms(1) by (simp add: b_def bit_length_pos)
  show ?thesis
  proof (cases "d * 2 ^ nat k \<le> n * 2 ^ nat (- k)")
    case False
    then show ?thesis
      by (simp add: binary_exponent_def Let_def k_def a_def b_def)
  next
    case True
    then have e: "binary_exponent n d = k"
      by (simp add: binary_exponent_def Let_def k_def a_def b_def)
    show ?thesis
    proof (cases "b \<le> Suc a")
      case True
      then have "nat (k + 1) = Suc a - b" "nat (- (k + 1)) = 0"
        by (simp_all add: k_def)
      moreover have "2 * n < 2 * (d * 2 ^ (Suc a - b))"
      proof -
        have "2 * n < 2 * 2 ^ a" using n by simp
        also have "\<dots> = 2 ^ b * 2 ^ (Suc a - b)"
          using True by (simp add: power_add [symmetric])
        also have "\<dots> \<le> (2 * d) * 2 ^ (Suc a - b)" using d by simp
        finally show ?thesis by simp
      qed
      ultimately show ?thesis by (simp add: e)
    next
      case False
      then have "nat (k + 1) = 0" "nat (- (k + 1)) = b - 1 - a"
        by (simp_all add: k_def)
      moreover have "2 * (n * 2 ^ (b - 1 - a)) < 2 * d"
      proof -
        have "2 * (n * 2 ^ (b - 1 - a)) < 2 * (2 ^ a * 2 ^ (b - 1 - a))"
          using n by simp
        also have "\<dots> = 2 ^ (Suc (a + (b - 1 - a)))" by (simp add: power_add)
        also have "Suc (a + (b - 1 - a)) = b" using False by simp
        finally show ?thesis using d by simp
      qed
      ultimately show ?thesis by (simp add: e)
    qed
  qed
qed

lemma round_binary64_truncate:
  assumes d: "0 < d" and n: "n < 2 ^ 53"
  shows "\<exists>m p. round_binary64 s n d = Finite s m p
           \<and> truncate_float s m p = (if s then - int (n div d) else int (n div d))"
proof (cases "n = 0")
  case True
  then show ?thesis
    by (simp add: round_binary64_def truncate_float_def)
next
  case False
  then have n0: "0 < n" by simp
  define e where "e = binary_exponent n d"
  define p where "p = max (e - 52) (- 1074)"
  define j where "j = nat (- p)"
  define m where "m = round_half_even (n * 2 ^ j) d"
  have e52: "e \<le> 52" unfolding e_def using d n by (rule binary_exponent_le)
  then have p0: "p \<le> 0" by (simp add: p_def)
  then have np: "nat p = 0" by simp
  have rb: "round_binary64 s n d = Finite s m p"
    using False p0
    by (simp add: round_binary64_def Let_def e_def [symmetric] p_def [symmetric] np
        j_def [symmetric] m_def [symmetric])
  have gap: "d < 2 ^ Suc j * (d - n mod d)"
  proof (cases "- 1074 \<le> e - 52")
    case True
    then have j: "j = nat (52 - e)" by (simp add: j_def p_def)
    have lower: "d * 2 ^ nat e \<le> n * 2 ^ nat (- e)"
      unfolding e_def using d n0 by (rule binary_exponent_lower)
    have a: "d < 2 ^ Suc j"
    proof (cases "0 \<le> e")
      case True
      then have "nat (- e) = 0" and s: "Suc j + nat e = 53"
        using e52 by (simp_all add: j)
      with lower have "d * 2 ^ nat e \<le> n" by simp
      also have "n < 2 ^ (Suc j + nat e)" using n by (simp only: s)
      finally have "d * 2 ^ nat e < 2 ^ Suc j * 2 ^ nat e" by (simp only: power_add)
      then show ?thesis by simp
    next
      case False
      then have "nat e = 0" and s: "Suc j = 53 + nat (- e)"
        by (simp_all add: j)
      with lower have "d \<le> n * 2 ^ nat (- e)" by simp
      also have "\<dots> < 2 ^ 53 * 2 ^ nat (- e)" using n by simp
      also have "\<dots> = 2 ^ Suc j" by (simp only: s power_add)
      finally show ?thesis .
    qed
    have "1 \<le> d - n mod d" using d by (simp add: Suc_le_eq)
    then have "2 ^ Suc j * 1 \<le> 2 ^ Suc j * (d - n mod d)"
      by (rule mult_le_mono2)
    then have b: "2 ^ Suc j \<le> 2 ^ Suc j * (d - n mod d)"
      by (simp only: mult_1_right)
    from a b show ?thesis by (rule less_le_trans)
  next
    case False
    then have e: "e < - 1022" by simp
    have upper: "n * 2 ^ nat (- (e + 1)) < d * 2 ^ nat (e + 1)"
      unfolding e_def using d n0 by (rule binary_exponent_upper)
    from e have "nat (e + 1) = 0" by simp
    with upper have u: "n * 2 ^ nat (- (e + 1)) < d" by simp
    from e have "1 \<le> nat (- (e + 1))" by simp
    then have "(2::nat) ^ 1 \<le> 2 ^ nat (- (e + 1))" by (rule power_increasing) simp
    then have "n * 2 ^ 1 \<le> n * 2 ^ nat (- (e + 1))" by (rule mult_le_mono2)
    from this u have "n * 2 ^ 1 < d" by (rule le_less_trans)
    then have nd: "2 * n < d" by simp
    then have md: "n mod d = n" by simp
    from nd have c: "d < 2 * (d - n)" by simp
    have "(2::nat) ^ 1 \<le> 2 ^ Suc j" by (rule power_increasing) simp_all
    then have "2 ^ 1 * (d - n) \<le> 2 ^ Suc j * (d - n)" by (rule mult_le_mono1)
    then have "2 * (d - n) \<le> 2 ^ Suc j * (d - n)" by (simp only: power_one_right)
    with c have "d < 2 ^ Suc j * (d - n)" by (rule less_le_trans)
    then show ?thesis by (simp only: md)
  qed
  have "m div 2 ^ j = n div d"
    unfolding m_def using d gap by (rule round_truncate_core)
  then have "truncate_float s m p = (if s then - int (n div d) else int (n div d))"
    by (simp add: truncate_float_def Let_def np j_def [symmetric])
  with rb show ?thesis by blast
qed

lemma py_int_float_of_decimal:
  assumes "n * 10 ^ nat e < 2 ^ 53"
  shows "py_int (float_of_decimal s n e) =
           Inr (if s then - int (n * 10 ^ nat e div 10 ^ nat (- e))
                else int (n * 10 ^ nat e div 10 ^ nat (- e)))"
proof -
  have "(0::nat) < 10 ^ nat (- e)" by simp
  from round_binary64_truncate [OF this assms, of s]
  show ?thesis
    by (auto simp: float_of_decimal_def)
qed

declare bit_length.simps [simp]

text \<open>The text of a decimal numeral through \<^verbatim>\<open>float\<close>.\<close>

lemma strip_underscores_plain:
  assumes "CHR ''_'' \<notin> set t" and "prev \<noteq> CHR ''_''"
  shows "strip_underscores prev t = Some t"
  using assms by (induction t arbitrary: prev) auto

lemma dropWhile_none: "\<forall>c\<in>set t. \<not> P c \<Longrightarrow> dropWhile P t = t"
  by (cases t) auto

lemma takeWhile_digits:
  assumes "list_all is_digit ds" and "rest = [] \<or> \<not> is_digit (hd rest)"
  shows "takeWhile is_digit (ds @ rest) = ds" and "dropWhile is_digit (ds @ rest) = rest"
proof -
  from assms(2) have t: "takeWhile is_digit rest = []" and d: "dropWhile is_digit rest = rest"
    by (cases rest; auto)+
  from assms(1) have a: "\<forall>c\<in>set ds. is_digit c" by (simp add: list_all_iff)
  then show "takeWhile is_digit (ds @ rest) = ds"
    by (simp add: takeWhile_append2 t)
  from a show "dropWhile is_digit (ds @ rest) = rest"
    by (simp add: dropWhile_append2 d)
qed

lemma is_digit_plain:
  assumes "is_digit c"
  shows "c \<noteq> CHR ''_''" "\<not> float_space c" "c \<noteq> CHR ''-''" "c \<noteq> CHR ''+''"
    "c \<noteq> CHR ''.''" "c \<noteq> CHR ''e''" "c \<noteq> CHR ''E''"
  using assms by (auto simp: is_digit_def float_space_def)

lemma parse_exponent_digits:
  assumes "list_all is_digit es"
  shows "parse_exponent (if es = [] then [] else CHR ''e'' # es) = (int (nat_of_digits es), [])"
proof (cases es)
  case Nil
  then show ?thesis by (simp add: parse_exponent_def nat_of_digits_def)
next
  case (Cons c cs)
  with assms have "is_digit c" by simp
  then have "parse_sign es = (False, es)"
    using Cons by (simp add: is_digit_plain)
  moreover have "takeWhile is_digit es = es" "dropWhile is_digit es = []"
    using takeWhile_digits [OF assms, of "[]"] by simp_all
  ultimately show ?thesis
    using Cons by (simp add: parse_exponent_def)
qed

lemma parse_decimal_numeral_text:
  assumes ip: "list_all is_digit ip" "ip \<noteq> []" and fp: "list_all is_digit fp"
    and es: "list_all is_digit es"
  shows "parse_decimal (numeral_text neg ip fp es) =
           Some (float_of_decimal neg (nat_of_digits (ip @ fp))
                   (int (nat_of_digits es) - int (length fp)), [])"
proof -
  define ex where "ex = (if es = [] then [] else CHR ''e'' # es)"
  define fr where "fr = (if fp = [] then [] else CHR ''.'' # fp)"
  from ip obtain c cs where c: "ip = c # cs" "is_digit c"
    by (cases ip) auto
  have 1: "parse_sign (numeral_text neg ip fp es) = (neg, ip @ fr @ ex)"
    using c by (simp add: numeral_text_def fr_def ex_def is_digit_plain)
  have "fr @ ex = [] \<or> \<not> is_digit (hd (fr @ ex))"
    by (auto simp: fr_def ex_def is_digit_def)
  from takeWhile_digits [OF ip(1) this]
  have 2: "takeWhile is_digit (ip @ fr @ ex) = ip" "dropWhile is_digit (ip @ fr @ ex) = fr @ ex" .
  have "ex = [] \<or> \<not> is_digit (hd ex)"
    by (auto simp: ex_def is_digit_def)
  from takeWhile_digits [OF fp this]
  have 3: "takeWhile is_digit (fp @ ex) = fp" "dropWhile is_digit (fp @ ex) = ex" .
  have 4: "(case fr @ ex of
              c # cs \<Rightarrow> if c = CHR ''.''
                        then (takeWhile is_digit cs, dropWhile is_digit cs)
                        else ([], fr @ ex)
            | [] \<Rightarrow> ([], fr @ ex)) = (fp, ex)"
    using 3 by (auto simp: fr_def ex_def split: list.splits)
  have 5: "parse_exponent ex = (int (nat_of_digits es), [])"
    unfolding ex_def using es by (rule parse_exponent_digits)
  show ?thesis
    using ip(2) by (simp add: parse_decimal_def 1 2 4 5)
qed

lemma numeral_text_plain:
  assumes "list_all is_digit ip" "list_all is_digit fp" "list_all is_digit es"
  shows "\<forall>c\<in>set (numeral_text neg ip fp es). c \<noteq> CHR ''_'' \<and> \<not> float_space c"
proof -
  have "\<forall>c\<in>set (numeral_text neg ip fp es).
          is_digit c \<or> c = CHR ''-'' \<or> c = CHR ''.'' \<or> c = CHR ''e''"
    using assms by (auto simp: numeral_text_def list_all_iff)
  moreover have "c \<noteq> CHR ''_'' \<and> \<not> float_space c"
    if "is_digit c \<or> c = CHR ''-'' \<or> c = CHR ''.'' \<or> c = CHR ''e''" for c
    using that by (auto simp: is_digit_def float_space_def)
  ultimately show ?thesis by blast
qed

lemma float_from_string_numeral_text:
  assumes ip: "list_all is_digit ip" "ip \<noteq> []" and fp: "list_all is_digit fp"
    and es: "list_all is_digit es"
  shows "float_from_string (numeral_text neg ip fp es) =
           Inr (float_of_decimal neg (nat_of_digits (ip @ fp))
                  (int (nat_of_digits es) - int (length fp)))"
proof -
  define t where "t = numeral_text neg ip fp es"
  have pl: "\<forall>c\<in>set t. c \<noteq> CHR ''_'' \<and> \<not> float_space c"
    unfolding t_def using ip(1) fp es by (rule numeral_text_plain)
  have ne: "t \<noteq> []" using ip(2) by (simp add: t_def numeral_text_def)
  have 1: "map (\<lambda>c. if float_space c then CHR '' '' else c) t = t"
    using pl by (simp add: map_idI)
  have 2: "strip_underscores (CHR 0x00) t = Some t"
    using pl by (intro strip_underscores_plain) auto
  have 3: "dropWhile float_space t = t"
    using pl by (simp add: dropWhile_none)
  have 4: "dropWhile float_space (rev t) = rev t"
    using pl by (simp add: dropWhile_none)
  have 5: "string_to_double t =
             Some (float_of_decimal neg (nat_of_digits (ip @ fp))
                     (int (nat_of_digits es) - int (length fp)), [])"
    by (simp add: string_to_double_def t_def parse_decimal_numeral_text [OF assms])
  show ?thesis
    unfolding t_def [symmetric]
    by (simp add: float_from_string_def 1 2 3 4 5 ne)
qed

lemma form_submissions_numeral_text:
  assumes cell: "r ''Number of Form Submissions'' = Some (Some (numeral_text neg ip fp es))"
    and ip: "list_all is_digit ip" "ip \<noteq> []" and fp: "list_all is_digit fp"
    and es: "list_all is_digit es"
    and small: "nat_of_digits (ip @ fp) * 10 ^ (nat_of_digits es - length fp) < 2 ^ 53"
  shows "form_submissions r =
           Inr (if neg
                then - int (nat_of_digits (ip @ fp) * 10 ^ (nat_of_digits es - length fp)
                            div 10 ^ (length fp - nat_of_digits es))
                else int (nat_of_digits (ip @ fp) * 10 ^ (nat_of_digits es - length fp)
                          div 10 ^ (length fp - nat_of_digits es)))"
proof -
  define e where "e = int (nat_of_digits es) - int (length fp)"
  have e: "nat e = nat_of_digits es - length fp" "nat (- e) = length fp - nat_of_digits es"
    by (simp_all add: e_def)
  have ne: "numeral_text neg ip fp es \<noteq> []"
    using ip(2) by (simp add: numeral_text_def)
  have "nat_of_digits (ip @ fp) * 10 ^ nat e < 2 ^ 53"
    using small by (simp only: e)
  then have pi: "py_int (float_of_decimal neg (nat_of_digits (ip @ fp)) e) =
           Inr (if neg then - int (nat_of_digits (ip @ fp) * 10 ^ nat e div 10 ^ nat (- e))
                else int (nat_of_digits (ip @ fp) * 10 ^ nat e div 10 ^ nat (- e)))"
    by (rule py_int_float_of_decimal)
  have "form_submissions r =
          (case float_from_string (numeral_text neg ip fp es) of
             Inl e \<Rightarrow> Inl e | Inr x \<Rightarrow> py_int x)"
    using cell ne by (rule form_submissions_text)
  then have "form_submissions r = py_int (float_of_decimal neg (nat_of_digits (ip @ fp)) e)"
    by (simp add: float_from_string_numeral_text [OF ip fp es] e_def)
  then show ?thesis
    unfolding pi e .
qed

lemma shifted_quotient:
  "(N * 10 ^ (E - k)) div 10 ^ (k - E) = (N * 10 ^ E) div (10 ^ k :: nat)"
proof (cases "k \<le> E")
  case True
  then have p: "(10::nat) ^ E = 10 ^ (E - k) * 10 ^ k"
    by (simp add: power_add [symmetric])
  have "N * 10 ^ E = N * 10 ^ (E - k) * 10 ^ k"
    by (simp only: p mult.assoc)
  then have "(N * 10 ^ E) div 10 ^ k = (N * 10 ^ (E - k) * 10 ^ k) div 10 ^ k"
    by (simp only:)
  also have "\<dots> = N * 10 ^ (E - k)" by (rule div_mult_self_is_m) simp
  finally show ?thesis using True by simp
next
  case False
  then have "(10::nat) ^ k = 10 ^ E * 10 ^ (k - E)"
    by (simp add: power_add [symmetric])
  then have "(N * 10 ^ E) div 10 ^ k = (10 ^ E * N) div (10 ^ E * 10 ^ (k - E))"
    by (simp add: mult.commute)
  also have "\<dots> = N div 10 ^ (k - E)" by (rule div_mult_mult1) simp
  finally show ?thesis using False by simp
qed

lemma truncate_numeral_value:
  "truncate_toward_zero (numeral_value neg ip fp es) =
     (if neg
      then - int (nat_of_digits (ip @ fp) * 10 ^ (nat_of_digits es - length fp)
                  div 10 ^ (length fp - nat_of_digits es))
      else int (nat_of_digits (ip @ fp) * 10 ^ (nat_of_digits es - length fp)
                div 10 ^ (length fp - nat_of_digits es)))"
proof -
  define a :: nat where "a = nat_of_digits (ip @ fp) * 10 ^ nat_of_digits es"
  define b :: nat where "b = 10 ^ length fp"
  define x :: real where "x = real a / real b"
  have x0: "0 \<le> x" by (simp add: x_def)
  have fl: "\<lfloor>x\<rfloor> = int (a div b)"
    unfolding x_def by (rule floor_divide_of_nat_eq)
  have v: "numeral_value neg ip fp es = (if neg then - x else x)"
    by (simp add: numeral_value_def x_def a_def b_def)
  have q: "nat_of_digits (ip @ fp) * 10 ^ (nat_of_digits es - length fp)
             div 10 ^ (length fp - nat_of_digits es) = a div b"
    unfolding a_def b_def by (rule shifted_quotient)
  have "truncate_toward_zero (if neg then - x else x) =
          (if neg then - int (a div b) else int (a div b))"
  proof (cases neg)
    case True
    have "truncate_toward_zero (- x) = - \<lfloor>x\<rfloor>"
    proof (cases "x = 0")
      case True
      then show ?thesis by (simp add: truncate_toward_zero_def)
    next
      case False
      with x0 have "- x < 0" by simp
      then show ?thesis by (simp add: truncate_toward_zero_def ceiling_minus)
    qed
    with True show ?thesis by (simp add: fl)
  next
    case False
    have "\<not> x < 0" using x0 by simp
    then have "truncate_toward_zero x = \<lfloor>x\<rfloor>" by (simp add: truncate_toward_zero_def)
    with False show ?thesis by (simp add: fl)
  qed
  then show ?thesis unfolding v q .
qed

lemma truncate_float_toward_zero:
  "truncate_float sg m p = truncate_toward_zero (float_value (Finite sg m p))"
  by (simp only: truncate_float_value truncate_toward_zero_def)

lemma form_submissions_Inr:
  assumes "form_submissions r = Inr n"
  shows "((r ''Number of Form Submissions'' = None
            \<or> r ''Number of Form Submissions'' = Some None
            \<or> r ''Number of Form Submissions'' = Some (Some [])) \<and> n = 0)
       \<or> (\<exists>s sg m p. r ''Number of Form Submissions'' = Some (Some s) \<and> s \<noteq> []
             \<and> float_from_string s = Inr (Finite sg m p)
             \<and> n = truncate_toward_zero (float_value (Finite sg m p)))"
proof (cases "r ''Number of Form Submissions'' = None
            \<or> r ''Number of Form Submissions'' = Some None
            \<or> r ''Number of Form Submissions'' = Some (Some [])")
  case True
  then have "form_submissions r = Inr 0" by (rule form_submissions_default)
  with assms True show ?thesis by simp
next
  case False
  then obtain s where s: "r ''Number of Form Submissions'' = Some (Some s)" "s \<noteq> []"
    by (cases "r ''Number of Form Submissions''") auto
  then have fs: "form_submissions r =
      (case float_from_string s of Inl e \<Rightarrow> Inl e | Inr x \<Rightarrow> py_int x)"
    by (rule form_submissions_text)
  with assms obtain x where x: "float_from_string s = Inr x" "py_int x = Inr n"
    by (cases "float_from_string s") auto
  then obtain sg m p where f: "x = Finite sg m p"
    by (cases x) auto
  with x have "n = truncate_float sg m p" by simp
  then have "n = truncate_toward_zero (float_value (Finite sg m p))"
    by (simp only: truncate_float_toward_zero)
  with s x(1) f show ?thesis by blast
qed

section \<open>The claims\<close>

text \<open>
  C1. For every input row, the output field \<open>isComplete\<close> is true if and only if both
  the "Company Name" cell and the "Your Industry" cell are present and not empty: a
  missing column, a cell that the reader left as \<^verbatim>\<open>None\<close> and an empty cell all
  count as false.
\<close>

theorem isComplete_iff:
  assumes "normalize_row r = Inr rec"
  shows "isComplete rec \<longleftrightarrow>
           (\<exists>s. r ''Company Name'' = Some (Some s) \<and> s \<noteq> []) \<and>
           (\<exists>s. r ''Your Industry'' = Some (Some s) \<and> s \<noteq> [])"
  using normalize_row_fields(14) [OF assms] by (simp add: py_bool_dict_get)

theorem isComplete_iff_witness:
  "normalize_row acme_row = Inr acme_record \<and> isComplete acme_record
   \<and> acme_row ''Company Name'' = Some (Some ''Acme'')
   \<and> acme_row ''Your Industry'' = Some (Some ''Tech'')"
  using isComplete_iff [OF normalize_acme_row] normalize_acme_row
  by (simp add: acme_row_def)

text \<open>
  C2. For every input row and each of the plain string output fields (id, firstName,
  lastName, email, phone, company, industry, state, trafficSource,
  trafficSourceDetail, originalTrafficSource, formType, recordSource, message,
  leadStatus), the output value is a string and equals the corresponding source cell
  verbatim, or the empty string when that cell is absent or empty.
\<close>

theorem plain_string_fields:
  assumes "normalize_row r = Inr rec"
  shows "rec_id rec = PyStr (source_cell_or_empty r ''Record ID'')
       \<and> firstName rec = PyStr (source_cell_or_empty r ''First Name'')
       \<and> lastName rec = PyStr (source_cell_or_empty r ''Last Name'')
       \<and> email rec = PyStr (source_cell_or_empty r ''Email'')
       \<and> phone rec = PyStr (source_cell_or_empty r ''Phone Number'')
       \<and> company rec = PyStr (source_cell_or_empty r ''Company Name'')
       \<and> industry rec = PyStr (source_cell_or_empty r ''Your Industry'')
       \<and> state rec = PyStr (source_cell_or_empty r ''State/Region'')
       \<and> trafficSource rec = PyStr (source_cell_or_empty r ''Latest Traffic Source'')
       \<and> trafficSourceDetail rec =
           PyStr (source_cell_or_empty r ''Latest Traffic Source Drill-Down 1'')
       \<and> originalTrafficSource rec =
           PyStr (source_cell_or_empty r ''Original Traffic Source'')
       \<and> formType rec = PyStr (source_cell_or_empty r ''Record source detail 1'')
       \<and> recordSource rec = PyStr (source_cell_or_empty r ''Record source'')
       \<and> message rec = PyStr (source_cell_or_empty r ''Message'')
       \<and> leadStatus rec = PyStr (source_cell_or_empty r ''Lead Status'')"
  using normalize_row_fields [OF assms] by (simp only: get_or_empty_eq simp_thms)

theorem plain_string_fields_witness:
  "normalize_row acme_row = Inr acme_record
   \<and> rec_id acme_record = PyStr ''42'' \<and> firstName acme_record = PyStr ''Ann''
   \<and> lastName acme_record = PyStr [] \<and> company acme_record = PyStr ''Acme''"
  using plain_string_fields [OF normalize_acme_row] normalize_acme_row
  by (simp add: source_cell_or_empty_def acme_row_def)

text \<open>
  C5, as amended. The loop body fails on exactly one path: it produces a record if and
  only if the "Number of Form Submissions" cell is absent, \<^verbatim>\<open>None\<close>, empty, or a
  text that \<^verbatim>\<open>float\<close> reads as a finite number. No other field can make it fail.
\<close>

theorem normalize_row_succeeds_iff:
  "(\<exists>rec. normalize_row r = Inr rec) \<longleftrightarrow>
     (case r ''Number of Form Submissions'' of
        None \<Rightarrow> True
      | Some None \<Rightarrow> True
      | Some (Some s) \<Rightarrow> s = [] \<or> (\<exists>sg m p. float_from_string s = Inr (Finite sg m p)))"
proof (cases "r ''Number of Form Submissions''")
  case None
  then show ?thesis
    by (simp add: normalize_row_ok_iff form_submissions_default)
next
  case (Some c)
  show ?thesis
  proof (cases c)
    case None
    with Some show ?thesis
      by (simp add: normalize_row_ok_iff form_submissions_default)
  next
    case (Some s)
    show ?thesis
    proof (cases "s = []")
      case True
      with Some \<open>r ''Number of Form Submissions'' = Some c\<close> show ?thesis
        by (simp add: normalize_row_ok_iff form_submissions_default)
    next
      case False
      have cell: "r ''Number of Form Submissions'' = Some (Some s)"
        using Some \<open>r ''Number of Form Submissions'' = Some c\<close> by simp
      have "(\<exists>n. form_submissions r = Inr n) \<longleftrightarrow>
              (\<exists>sg m p. float_from_string s = Inr (Finite sg m p))"
      proof (cases "float_from_string s")
        case (Inl e)
        then show ?thesis
          using cell False by (simp add: form_submissions_text [of r s])
      next
        case (Inr x)
        then show ?thesis
          using cell False by (cases x) (simp_all add: form_submissions_text [of r s])
      qed
      with cell False show ?thesis
        by (simp add: normalize_row_ok_iff)
    qed
  qed
qed

theorem normalize_row_succeeds_iff_witness:
  "(\<exists>rec. normalize_row Map.empty = Inr rec)"
  using normalize_row_succeeds_iff [of Map.empty] by simp

text \<open>
  C5, as stated, fails: the row whose form-submissions cell is \<^verbatim>\<open>abc\<close> gives no
  record but a \<^verbatim>\<open>ValueError\<close>.
\<close>

theorem normalize_row_never_fails_counterexample:
  "normalize_row [''Number of Form Submissions'' \<mapsto> Some ''abc''] = Inl ValueError"
  using normalize_bad_row by (simp add: bad_row_def)

text \<open>
  C6. For every input row whose "Number of Form Submissions" cell holds a text that is
  not empty and that \<^verbatim>\<open>float\<close> cannot read as a number, the loop body raises a
  \<^verbatim>\<open>ValueError\<close>, and every run over rows that contain this row ends with an
  exception instead of an output.
\<close>

theorem non_numeral_aborts:
  assumes "r ''Number of Form Submissions'' = Some (Some s)" and "s \<noteq> []"
    and "\<forall>x. float_from_string s \<noteq> Inr x"
  shows "normalize_row r = Inl ValueError
       \<and> (\<forall>rs. r \<in> set rs \<longrightarrow> (\<exists>e. convert rs = Inl e))"
proof -
  have n: "normalize_row r = Inl ValueError"
    using assms by (simp add: normalize_row_def form_submissions_fails [of r s])
  then show ?thesis
    using convert_aborts by blast
qed

theorem non_numeral_aborts_witness:
  "bad_row ''Number of Form Submissions'' = Some (Some ''abc'')
   \<and> normalize_row bad_row = Inl ValueError
   \<and> (\<exists>e. convert [acme_row, bad_row] = Inl e)"
proof -
  have 1: "bad_row ''Number of Form Submissions'' = Some (Some ''abc'')"
    by (simp add: bad_row_def)
  have 2: "''abc'' \<noteq> []" by simp
  have 3: "\<forall>x. float_from_string ''abc'' \<noteq> Inr x"
    by (simp add: float_from_string_abc)
  from non_numeral_aborts [of bad_row "''abc''", OF 1 2 3] 1 show ?thesis by simp
qed

text \<open>
  C7. A run has an output exactly when every row gives a record; the output then has
  as many records as there are rows, and the record at each position is the one of the
  row at that position.
\<close>

theorem convert_length_order:
  "convert rs = Inr recs \<longleftrightarrow>
     (length recs = length rs
      \<and> (\<forall>i<length rs. normalize_row (rs ! i) = Inr (recs ! i)))"
  by (simp add: convert_Inr_iff map_eq_iff_nth)

theorem convert_length_order_witness:
  "convert [acme_row, Map.empty] = Inr [acme_record, blank_record]"
proof -
  have "\<forall>i<length [acme_row, Map.empty].
          normalize_row ([acme_row, Map.empty] ! i) = Inr ([acme_record, blank_record] ! i)"
    by (simp add: less_Suc_eq normalize_acme_row normalize_blank_row numeral_2_eq_2)
  then show ?thesis
    using convert_length_order [of "[acme_row, Map.empty]" "[acme_record, blank_record]"]
    by simp
qed

text \<open>
  C9. For every input row in which the "Number of Form Submissions" column is present
  but its cell is the empty string, \<open>formSubmissions\<close> is 0 and no exception is raised.
\<close>

theorem empty_cell_formSubmissions:
  "\<exists>rec. normalize_row (r(''Number of Form Submissions'' \<mapsto> Some [])) = Inr rec
         \<and> formSubmissions rec = 0"
proof -
  have "form_submissions (r(''Number of Form Submissions'' \<mapsto> Some [])) = Inr 0"
    by (rule form_submissions_default) simp
  then show ?thesis
    by (simp add: normalize_row_def)
qed

text \<open>
  C4. For every input row, \<open>formSubmissions\<close> is the "Number of Form Submissions" cell
  converted to a float and truncated to an integer, and 0 when the column is absent.

  \<^item> An absent cell, a \<^verbatim>\<open>None\<close> cell and an empty cell give 0.
  \<^item> A cell that is a decimal numeral (an optional minus sign, digits, an optional point
    and digits, an optional exponent of digits) whose digits, shifted by the exponent,
    stay below \<open>2^53\<close> gives the number that the numeral stands for, truncated toward
    zero.
  \<^item> Whenever a row gives a record, its cell is absent, \<^verbatim>\<open>None\<close> or empty and
    \<open>formSubmissions\<close> is 0, or the cell is a text that \<^verbatim>\<open>float\<close> reads as a
    finite float and \<open>formSubmissions\<close> is the value of that float truncated toward
    zero.
  \<^item> The cell \<^verbatim>\<open>0\<close> gives 0, \<^verbatim>\<open>3\<close> gives 3, \<^verbatim>\<open>2.7\<close> gives 2, and a row
    without the column gives 0.
\<close>

theorem formSubmissions_float_truncate:
  "(r ''Number of Form Submissions'' = None
      \<or> r ''Number of Form Submissions'' = Some None
      \<or> r ''Number of Form Submissions'' = Some (Some []) \<longrightarrow>
      (\<exists>rec. normalize_row r = Inr rec \<and> formSubmissions rec = 0))
 \<and> (\<forall>neg ip fp es.
      r ''Number of Form Submissions'' = Some (Some (numeral_text neg ip fp es))
      \<and> list_all is_digit ip \<and> ip \<noteq> [] \<and> list_all is_digit fp \<and> list_all is_digit es
      \<and> nat_of_digits (ip @ fp) * 10 ^ (nat_of_digits es - length fp) < 2 ^ 53 \<longrightarrow>
      (\<exists>rec. normalize_row r = Inr rec
         \<and> formSubmissions rec = truncate_toward_zero (numeral_value neg ip fp es)))
 \<and> (\<forall>rec. normalize_row r = Inr rec \<longrightarrow>
      ((r ''Number of Form Submissions'' = None
          \<or> r ''Number of Form Submissions'' = Some None
          \<or> r ''Number of Form Submissions'' = Some (Some []))
        \<and> formSubmissions rec = 0)
      \<or> (\<exists>s sg m p. r ''Number of Form Submissions'' = Some (Some s) \<and> s \<noteq> []
            \<and> float_from_string s = Inr (Finite sg m p)
            \<and> formSubmissions rec = truncate_toward_zero (float_value (Finite sg m p))))
 \<and> (\<exists>rec. normalize_row (r(''Number of Form Submissions'' \<mapsto> Some ''0'')) = Inr rec
          \<and> formSubmissions rec = 0)
 \<and> (\<exists>rec. normalize_row (r(''Number of Form Submissions'' \<mapsto> Some ''3'')) = Inr rec
          \<and> formSubmissions rec = 3)
 \<and> (\<exists>rec. normalize_row (r(''Number of Form Submissions'' \<mapsto> Some ''2.7'')) = Inr rec
          \<and> formSubmissions rec = 2)
 \<and> (\<exists>rec. normalize_row (r(''Number of Form Submissions'' := None)) = Inr rec
          \<and> formSubmissions rec = 0)"
proof -
  have a: "\<exists>rec. normalize_row r = Inr rec \<and> formSubmissions rec = 0"
    if "r ''Number of Form Submissions'' = None
      \<or> r ''Number of Form Submissions'' = Some None
      \<or> r ''Number of Form Submissions'' = Some (Some [])"
    using form_submissions_default [of r, OF that] by (rule normalize_row_formSubmissions)
  have b: "\<exists>rec. normalize_row r = Inr rec
         \<and> formSubmissions rec = truncate_toward_zero (numeral_value neg ip fp es)"
    if "r ''Number of Form Submissions'' = Some (Some (numeral_text neg ip fp es))
      \<and> list_all is_digit ip \<and> ip \<noteq> [] \<and> list_all is_digit fp \<and> list_all is_digit es
      \<and> nat_of_digits (ip @ fp) * 10 ^ (nat_of_digits es - length fp) < 2 ^ 53"
    for neg ip fp es
  proof -
    from that have "form_submissions r =
        Inr (truncate_toward_zero (numeral_value neg ip fp es))"
      unfolding truncate_numeral_value
      by (intro form_submissions_numeral_text [of r]) simp_all
    then show ?thesis by (rule normalize_row_formSubmissions)
  qed
  have c: "((r ''Number of Form Submissions'' = None
          \<or> r ''Number of Form Submissions'' = Some None
          \<or> r ''Number of Form Submissions'' = Some (Some []))
        \<and> formSubmissions rec = 0)
      \<or> (\<exists>s sg m p. r ''Number of Form Submissions'' = Some (Some s) \<and> s \<noteq> []
            \<and> float_from_string s = Inr (Finite sg m p)
            \<and> formSubmissions rec = truncate_toward_zero (float_value (Finite sg m p)))"
    if "normalize_row r = Inr rec" for rec
    using normalize_row_fields(18) [OF that] by (rule form_submissions_Inr [of r])
  have d: "\<exists>rec. normalize_row (r(''Number of Form Submissions'' \<mapsto> Some ''0'')) = Inr rec
          \<and> formSubmissions rec = 0"
    using form_submissions_0 [of r] by (rule normalize_row_formSubmissions)
  have e: "\<exists>rec. normalize_row (r(''Number of Form Submissions'' \<mapsto> Some ''3'')) = Inr rec
          \<and> formSubmissions rec = 3"
    using form_submissions_3 [of r] by (rule normalize_row_formSubmissions)
  have f: "\<exists>rec. normalize_row (r(''Number of Form Submissions'' \<mapsto> Some ''2.7'')) = Inr rec
          \<and> formSubmissions rec = 2"
    using form_submissions_2_7 [of r] by (rule normalize_row_formSubmissions)
  have "form_submissions (r(''Number of Form Submissions'' := None)) = Inr 0"
    by (rule form_submissions_default) simp
  then have g: "\<exists>rec. normalize_row (r(''Number of Form Submissions'' := None)) = Inr rec
          \<and> formSubmissions rec = 0"
    by (rule normalize_row_formSubmissions)
  from a b c d e f g show ?thesis by blast
qed

theorem formSubmissions_float_truncate_witness:
  "(\<exists>rec. normalize_row exponent_row = Inr rec \<and> formSubmissions rec = 100)
 \<and> (\<exists>rec. normalize_row decimal_row = Inr rec \<and> formSubmissions rec = 3)
 \<and> (\<exists>rec. normalize_row negative_row = Inr rec \<and> formSubmissions rec = - 2)
 \<and> (\<exists>rec. normalize_row Map.empty = Inr rec \<and> formSubmissions rec = 0)"
proof -
  have 1: "\<exists>rec. normalize_row exponent_row = Inr rec \<and> formSubmissions rec = 100"
    using formSubmissions_float_truncate [of exponent_row, THEN conjunct2, THEN conjunct1,
        rule_format, of False "''1''" "[]" "''2''"]
    by (simp add: exponent_row_def numeral_text_def is_digit_def nat_of_digits_def
        digit_val_def numeral_value_def truncate_toward_zero_def)
  have 2: "\<exists>rec. normalize_row decimal_row = Inr rec \<and> formSubmissions rec = 3"
    using formSubmissions_float_truncate [of decimal_row, THEN conjunct2, THEN conjunct1,
        rule_format, of False "''3''" "''0''" "[]"]
    by (simp add: decimal_row_def numeral_text_def is_digit_def nat_of_digits_def
        digit_val_def numeral_value_def truncate_toward_zero_def)
  have 3: "\<exists>rec. normalize_row negative_row = Inr rec \<and> formSubmissions rec = - 2"
    using formSubmissions_float_truncate [of negative_row, THEN conjunct2, THEN conjunct1,
        rule_format, of True "''2''" "''7''" "[]"]
    by (simp add: negative_row_def numeral_text_def is_digit_def nat_of_digits_def
        digit_val_def numeral_value_def truncate_toward_zero_def ceiling_minus)
  have 4: "\<exists>rec. normalize_row Map.empty = Inr rec \<and> formSubmissions rec = 0"
    using formSubmissions_float_truncate [of Map.empty] by simp
  from 1 2 3 4 show ?thesis by blast
qed

text \<open>
  C10. The conversion truncates toward zero: for every row whose cell is a text that
  \<^verbatim>\<open>float\<close> reads as a finite number, \<open>formSubmissions\<close> is the value of that float
  rounded up when it is negative and rounded down otherwise. The cell \<^verbatim>\<open>-2.7\<close>
  gives \<open>-2\<close>, where rounding down would give \<open>-3\<close>.
\<close>

theorem formSubmissions_truncates_toward_zero:
  assumes "r ''Number of Form Submissions'' = Some (Some s)"
    and "float_from_string s = Inr (Finite sg m p)"
  shows "\<exists>rec. normalize_row r = Inr rec
           \<and> formSubmissions rec =
               (if float_value (Finite sg m p) < 0 then \<lceil>float_value (Finite sg m p)\<rceil>
                else \<lfloor>float_value (Finite sg m p)\<rfloor>)"
proof -
  have "s \<noteq> []"
    using assms(2) float_from_string_Nil by auto
  with assms have "form_submissions r = Inr (truncate_float sg m p)"
    by (simp add: form_submissions_text [of r s])
  then show ?thesis
    unfolding truncate_float_value by (rule normalize_row_formSubmissions)
qed

theorem formSubmissions_truncates_toward_zero_witness:
  "negative_row ''Number of Form Submissions'' = Some (Some ''-2.7'')
   \<and> float_from_string ''-2.7'' = Inr (Finite True 6079859496950170 (- 51))
   \<and> (\<exists>rec. normalize_row negative_row = Inr rec \<and> formSubmissions rec = - 2)
   \<and> \<lfloor>float_value (Finite True 6079859496950170 (- 51))\<rfloor> = - 3"
proof -
  have 1: "negative_row ''Number of Form Submissions'' = Some (Some ''-2.7'')"
    by (simp add: negative_row_def)
  from formSubmissions_truncates_toward_zero
         [of negative_row "''-2.7''", OF 1 float_from_string_neg_2_7] 1
  show ?thesis
    by (simp add: float_value_def ceiling_minus float_from_string_neg_2_7)
qed



end
